theory Spec2Isabelle
  imports Complex_Main "HOL-Library.Char_ord" "HOL-Library.List_Lexorder"
    "HOL-Library.Product_Lexorder" "HOL-Library.Log_Nat"
begin

section \<open>Numbers of the data frames\<close>

text \<open>
  The counters \<open>impressions\<close>, \<open>clicks\<close> and \<open>conversions\<close> are integer columns and are
  modelled as \<open>int\<close>. A float64 is either finite, and then it is kept as the rational
  number it denotes, or one of the three special values. The sign of a zero is not
  modelled.
\<close>

datatype fval = Fin rat | PInf | NInf | NaN

text \<open>\<open>numpy.rint\<close>: the nearest integer, a tie going to the even neighbour.\<close>

definition rint :: "rat \<Rightarrow> int" where
  "rint x =
     (let f = \<lfloor>x\<rfloor>; d = x - of_int f
      in if d < 1 / 2 then f
         else if 1 / 2 < d then f + 1
         else if even f then f
         else f + 1)"

subsection \<open>Rounding to float64\<close>

text \<open>\<open>ilog2 x\<close> is the exponent \<open>k\<close> with \<open>2\<^sup>k \<le> |x| < 2\<^sup>k\<^sup>+\<^sup>1\<close>, for \<open>x\<close> other than 0.\<close>

definition ilog2 :: "rat \<Rightarrow> int" where
  "ilog2 x =
     (let p = \<bar>fst (quotient_of x)\<bar>; q = snd (quotient_of x); d = bitlen p - bitlen q
      in if 2 powi d \<le> \<bar>x\<bar> then d else d - 1)"

text \<open>The exponent of the smallest positive float64, \<open>2\<^sup>-\<^sup>1\<^sup>0\<^sup>7\<^sup>4\<close>.\<close>

definition emin64 :: int where
  "emin64 = - 1074"

text \<open>
  \<open>r64 x\<close> is the float64 nearest to the number \<open>x\<close>, as IEEE 754 defines the result of
  every arithmetic operation and of reading a decimal: a significand of 53 bits, rounded
  to nearest with ties to even; below \<open>2\<^sup>-\<^sup>1\<^sup>0\<^sup>2\<^sup>2\<close> the spacing stays at \<open>2\<^sup>-\<^sup>1\<^sup>0\<^sup>7\<^sup>4\<close>; a rounded
  magnitude of \<open>2\<^sup>1\<^sup>0\<^sup>2\<^sup>4\<close> or more overflows to an infinity.
\<close>

definition r64 :: "rat \<Rightarrow> fval" where
  "r64 x =
     (if x = 0 then Fin 0
      else let e = max (ilog2 x - 52) emin64;
               m = rint (x / 2 powi e)
           in if 1024 < bitlen \<bar>m\<bar> + e then (if 0 < x then PInf else NInf)
              else Fin (of_int m * 2 powi e))"

text \<open>A value of an integer column converted to float64.\<close>

definition i2f :: "int \<Rightarrow> fval" where
  "i2f c = r64 (of_int c)"

subsection \<open>float64 arithmetic\<close>

text \<open>
  Addition, multiplication and division of a float64 column: the exact result rounded by
  \<open>r64\<close>, and the special values as numpy applies IEEE 754 to a column, where a division
  by zero does not raise.
\<close>

fun add64 :: "fval \<Rightarrow> fval \<Rightarrow> fval" where
  "add64 NaN y = NaN"
| "add64 x NaN = NaN"
| "add64 (Fin a) (Fin b) = r64 (a + b)"
| "add64 PInf NInf = NaN"
| "add64 NInf PInf = NaN"
| "add64 PInf y = PInf"
| "add64 NInf y = NInf"
| "add64 x PInf = PInf"
| "add64 x NInf = NInf"

fun mul64 :: "fval \<Rightarrow> fval \<Rightarrow> fval" where
  "mul64 NaN y = NaN"
| "mul64 x NaN = NaN"
| "mul64 (Fin a) (Fin b) = r64 (a * b)"
| "mul64 (Fin a) PInf = (if 0 < a then PInf else if a < 0 then NInf else NaN)"
| "mul64 (Fin a) NInf = (if 0 < a then NInf else if a < 0 then PInf else NaN)"
| "mul64 PInf (Fin b) = (if 0 < b then PInf else if b < 0 then NInf else NaN)"
| "mul64 NInf (Fin b) = (if 0 < b then NInf else if b < 0 then PInf else NaN)"
| "mul64 PInf PInf = PInf"
| "mul64 PInf NInf = NInf"
| "mul64 NInf PInf = NInf"
| "mul64 NInf NInf = PInf"

fun div64 :: "fval \<Rightarrow> fval \<Rightarrow> fval" where
  "div64 NaN y = NaN"
| "div64 x NaN = NaN"
| "div64 (Fin a) (Fin b) =
     (if b \<noteq> 0 then r64 (a / b)
      else if 0 < a then PInf
      else if a < 0 then NInf
      else NaN)"
| "div64 (Fin a) y = Fin 0"
| "div64 PInf (Fin b) = (if 0 \<le> b then PInf else NInf)"
| "div64 NInf (Fin b) = (if 0 \<le> b then NInf else PInf)"
| "div64 x y = NaN"

fun rint64 :: "fval \<Rightarrow> fval" where
  "rint64 (Fin a) = Fin (of_int (rint a))"
| "rint64 v = v"

text \<open>
  \<open>Series.round(n)\<close> for \<open>n \<ge> 0\<close>, as numpy computes it: multiply by \<open>10\<^sup>n\<close>, \<open>rint\<close>,
  divide by \<open>10\<^sup>n\<close>, each step in float64.
\<close>

definition round64 :: "nat \<Rightarrow> fval \<Rightarrow> fval" where
  "round64 n v = div64 (rint64 (mul64 v (Fin (10 ^ n)))) (Fin (10 ^ n))"

text \<open>\<open>pd.notna\<close> on a float.\<close>

fun notna :: "fval \<Rightarrow> bool" where
  "notna NaN = False"
| "notna v = True"

text \<open>
  \<open>Series.sum()\<close> of a float64 column: missing values are skipped and the others are
  added up in float64, here in the order of the rows.
\<close>

definition sum64 :: "fval list \<Rightarrow> fval" where
  "sum64 vs = foldl add64 (Fin 0) (filter notna vs)"

text \<open>\<open>Series.replace(0, float("nan"))\<close> on one cell of an integer column.\<close>

definition replace_0_nan :: "int \<Rightarrow> fval" where
  "replace_0_nan c = (if c = 0 then NaN else i2f c)"

subsection \<open>Exact arithmetic\<close>

text \<open>
  The quotient and the product without the rounding of the result. They serve for the
  overall click-through rate, a ratio of two totals that is only ever shown through a
  format and of which nothing but the formula and the zero guard is examined.
\<close>

fun fdiv :: "fval \<Rightarrow> fval \<Rightarrow> fval" where
  "fdiv NaN y = NaN"
| "fdiv x NaN = NaN"
| "fdiv (Fin a) (Fin b) =
     (if b \<noteq> 0 then Fin (a / b)
      else if 0 < a then PInf
      else if a < 0 then NInf
      else NaN)"
| "fdiv (Fin a) y = Fin 0"
| "fdiv PInf (Fin b) = (if 0 \<le> b then PInf else NInf)"
| "fdiv NInf (Fin b) = (if 0 \<le> b then NInf else PInf)"
| "fdiv x y = NaN"

fun fmul :: "fval \<Rightarrow> fval \<Rightarrow> fval" where
  "fmul NaN y = NaN"
| "fmul x NaN = NaN"
| "fmul (Fin a) (Fin b) = Fin (a * b)"
| "fmul (Fin a) PInf = (if 0 < a then PInf else if a < 0 then NInf else NaN)"
| "fmul (Fin a) NInf = (if 0 < a then NInf else if a < 0 then PInf else NaN)"
| "fmul PInf (Fin b) = (if 0 < b then PInf else if b < 0 then NInf else NaN)"
| "fmul NInf (Fin b) = (if 0 < b then NInf else if b < 0 then PInf else NaN)"
| "fmul PInf PInf = PInf"
| "fmul PInf NInf = NInf"
| "fmul NInf PInf = NInf"
| "fmul NInf NInf = PInf"

section \<open>The unified record set\<close>

text \<open>A calendar date as (year, month, day); the lexicographic order is the chronological one.\<close>

type_synonym date = "nat \<times> nat \<times> nat"

text \<open>
  One row of \<open>unified_ads\<close>, with the columns of the \<open>SELECT\<close>. The field \<open>spend\<close> is the
  amount as the table stores it; the cell of the data frame is the float64 nearest to it.
\<close>

record unified_record =
  date :: date
  platform :: string
  campaign_id :: string
  campaign_name :: string
  ad_group_id :: string
  ad_group_name :: string
  impressions :: int
  clicks :: int
  spend :: rat
  conversions :: int

type_synonym unified_df = "unified_record list"

definition spend64 :: "unified_record \<Rightarrow> fval" where
  "spend64 r = r64 (spend r)"

section \<open>\<open>DataFrame.groupby\<close>\<close>

text \<open>
  \<open>groupby\<close> with its default \<open>sort=True\<close>: the groups are the distinct key values in
  ascending order, and the group of a key holds the rows that carry it, in frame order.
\<close>

definition group_keys :: "('r \<Rightarrow> 'k::linorder) \<Rightarrow> 'r list \<Rightarrow> 'k list" where
  "group_keys key df = sort (remdups (map key df))"

definition get_group :: "('r \<Rightarrow> 'k) \<Rightarrow> 'k \<Rightarrow> 'r list \<Rightarrow> 'r list" where
  "get_group key k df = filter (\<lambda>r. key r = k) df"

section \<open>Key metrics (all time)\<close>

definition tot_spend :: "unified_df \<Rightarrow> fval" where
  "tot_spend df = sum64 (map spend64 df)"

definition tot_impressions :: "unified_df \<Rightarrow> int" where
  "tot_impressions df = sum_list (map impressions df)"

definition tot_clicks :: "unified_df \<Rightarrow> int" where
  "tot_clicks df = sum_list (map clicks df)"

definition tot_conversions :: "unified_df \<Rightarrow> int" where
  "tot_conversions df = sum_list (map conversions df)"

text \<open>\<open>tot_spend / tot_clicks if tot_clicks else 0\<close>: a zero total is falsy.\<close>

definition overall_cpc :: "unified_df \<Rightarrow> fval" where
  "overall_cpc df =
     (if tot_clicks df \<noteq> 0 then div64 (tot_spend df) (i2f (tot_clicks df))
      else Fin 0)"

definition overall_cpa :: "unified_df \<Rightarrow> fval" where
  "overall_cpa df =
     (if tot_conversions df \<noteq> 0 then div64 (tot_spend df) (i2f (tot_conversions df))
      else Fin 0)"

definition overall_ctr :: "unified_df \<Rightarrow> fval" where
  "overall_ctr df =
     (if tot_impressions df \<noteq> 0
      then fmul (fdiv (Fin (of_int (tot_clicks df))) (Fin (of_int (tot_impressions df))))
             (Fin 100)
      else Fin 0)"

section \<open>Performance by platform\<close>

text \<open>The frame after \<open>groupby("platform", as_index=False).agg(...)\<close>.\<close>

record platform_agg =
  g_platform :: string
  g_spend :: fval
  g_impressions :: int
  g_clicks :: int
  g_conversions :: int

text \<open>The same frame with the three derived columns assigned.\<close>

record platform_summary = platform_agg +
  ctr_pct :: fval
  cost_per_conv :: fval
  share_of_spend :: fval

definition platform_groups :: "unified_df \<Rightarrow> platform_agg list" where
  "platform_groups df =
     map (\<lambda>p. let g = get_group platform p df
              in \<lparr>g_platform = p,
                  g_spend = sum64 (map spend64 g),
                  g_impressions = sum_list (map impressions g),
                  g_clicks = sum_list (map clicks g),
                  g_conversions = sum_list (map conversions g)\<rparr>)
         (group_keys platform df)"

definition derive_ctr_pct :: "'a platform_agg_scheme \<Rightarrow> fval" where
  "derive_ctr_pct g =
     round64 2 (mul64 (div64 (i2f (g_clicks g)) (i2f (g_impressions g))) (Fin 100))"

definition derive_cost_per_conv :: "'a platform_agg_scheme \<Rightarrow> fval" where
  "derive_cost_per_conv g =
     round64 2 (div64 (g_spend g) (replace_0_nan (g_conversions g)))"

definition derive_share_of_spend :: "fval \<Rightarrow> 'a platform_agg_scheme \<Rightarrow> fval" where
  "derive_share_of_spend spend_sum g =
     round64 1 (mul64 (div64 (g_spend g) spend_sum) (Fin 100))"

text \<open>\<open>by_platform["spend"].sum()\<close>, the divisor of the shares.\<close>

definition spend_sum :: "unified_df \<Rightarrow> fval" where
  "spend_sum df = sum64 (map g_spend (platform_groups df))"

definition by_platform :: "unified_df \<Rightarrow> platform_summary list" where
  "by_platform df =
     (let grouped = platform_groups df;
          total = sum64 (map g_spend grouped)
      in map (\<lambda>g. \<lparr>g_platform = g_platform g,
                   g_spend = g_spend g,
                   g_impressions = g_impressions g,
                   g_clicks = g_clicks g,
                   g_conversions = g_conversions g,
                   ctr_pct = derive_ctr_pct g,
                   cost_per_conv = derive_cost_per_conv g,
                   share_of_spend = derive_share_of_spend total g\<rparr>)
             grouped)"

text \<open>
  The table shown to the user. A formatted cell is kept as the format applied and the
  value it was applied to: \<open>Money0 x\<close> stands for \<open>f"${x:,.0f}"\<close>, \<open>Count\<close> for
  \<open>f"{x:,.0f}"\<close>, \<open>Pct2\<close> for \<open>f"{x:.2f}%"\<close>, \<open>Money2\<close> for \<open>f"${x:.2f}"\<close>, \<open>Pct1\<close> for
  \<open>f"{x:.1f}%"\<close>, and \<open>Dash\<close> for the placeholder glyph.
\<close>

datatype cell =
  Plain string | Money0 fval | Count int | Pct2 fval | Money2 fval | Pct1 fval | Dash


record display_row =
  v_platform :: cell
  v_spend :: cell
  v_impressions :: cell
  v_clicks :: cell
  v_conversions :: cell
  v_ctr_pct :: cell
  v_cost_per_conv :: cell
  v_share_of_spend :: cell

definition format_row :: "platform_summary \<Rightarrow> display_row" where
  "format_row r =
     \<lparr>v_platform = Plain (g_platform r),
      v_spend = Money0 (g_spend r),
      v_impressions = Count (g_impressions r),
      v_clicks = Count (g_clicks r),
      v_conversions = Count (g_conversions r),
      v_ctr_pct = Pct2 (ctr_pct r),
      v_cost_per_conv = (if notna (cost_per_conv r) then Money2 (cost_per_conv r) else Dash),
      v_share_of_spend = Pct1 (share_of_spend r)\<rparr>"

definition display_df :: "platform_summary list \<Rightarrow> display_row list" where
  "display_df tbl = map format_row tbl"


section \<open>Spend and conversions over time\<close>

text \<open>One row of \<open>unified_ads_daily_summary\<close>.\<close>

record daily_row =
  s_date :: date
  s_platform :: string
  s_impressions :: int
  s_clicks :: int
  s_spend :: rat
  s_conversions :: int
  s_ctr :: fval
  s_cost_per_conversion :: fval

type_synonym daily_df = "daily_row list"

text \<open>\<open>Series.unique()\<close>: the distinct values in order of first appearance.\<close>

definition unique :: "'a list \<Rightarrow> 'a list" where
  "unique xs = rev (remdups (rev xs))"

text \<open>A \<open>go.Scatter\<close> trace: its name and its two coordinate columns.\<close>

record scatter =
  trace_name :: string
  trace_x :: "date list"
  trace_y :: "rat list"

definition spend_traces :: "daily_df \<Rightarrow> scatter list" where
  "spend_traces daily =
     map (\<lambda>p. let sub = filter (\<lambda>r. s_platform r = p) daily
              in \<lparr>trace_name = p, trace_x = map s_date sub, trace_y = map s_spend sub\<rparr>)
         (unique (map s_platform daily))"

definition conversions_traces :: "daily_df \<Rightarrow> scatter list" where
  "conversions_traces daily =
     map (\<lambda>p. let sub = filter (\<lambda>r. s_platform r = p) daily
              in \<lparr>trace_name = p, trace_x = map s_date sub,
                  trace_y = map (\<lambda>r. of_int (s_conversions r)) sub\<rparr>)
         (unique (map s_platform daily))"

text \<open>
  The frame after \<open>groupby(["date", "platform"]).agg({"spend": "sum", "conversions": "sum"})\<close>
  and \<open>reset_index()\<close>. Its sums are kept exact, over the amounts as stored: what is
  examined of this frame is which rows each of its sums ranges over.
\<close>

record daily_alt_row =
  d_date :: date
  d_platform :: string
  d_spend :: rat
  d_conversions :: int

definition date_platform :: "unified_record \<Rightarrow> date \<times> string" where
  "date_platform r = (date r, platform r)"

definition daily_alt :: "unified_df \<Rightarrow> daily_alt_row list" where
  "daily_alt df =
     map (\<lambda>k. let g = get_group date_platform k df
              in \<lparr>d_date = fst k,
                  d_platform = snd k,
                  d_spend = sum_list (map spend g),
                  d_conversions = sum_list (map conversions g)\<rparr>)
         (group_keys date_platform df)"

text \<open>What the section plots: the two daily charts, or the one chart of the derived frame.\<close>

datatype time_series = DailyCharts "scatter list" "scatter list" | FallbackChart "daily_alt_row list"

definition over_time :: "daily_df option \<Rightarrow> unified_df \<Rightarrow> time_series" where
  "over_time daily df =
     (case daily of
        None \<Rightarrow> FallbackChart (daily_alt df)
      | Some d \<Rightarrow>
          if d \<noteq> [] then DailyCharts (spend_traces d) (conversions_traces d)
          else FallbackChart (daily_alt df))"

section \<open>Loading\<close>











section \<open>\<open>main\<close>\<close>








section \<open>Reference quantities and example data\<close>

text \<open>
  The dashboard does not compute the definitions of this section. They state what the
  derived values are compared with, and fix the record sets used as examples.
\<close>

text \<open>
  The unit roundoff of float64, \<open>2\<^sup>-\<^sup>5\<^sup>3\<close>, half the spacing of the floats below
  \<open>2\<^sup>-\<^sup>1\<^sup>0\<^sup>2\<^sup>2\<close>, and the numbers that are whole multiples of that spacing.
\<close>

definition u64 :: rat where
  "u64 = 1 / 2 ^ 53"

definition eta64 :: rat where
  "eta64 = 2 powi emin64 / 2"

definition on_grid :: "rat \<Rightarrow> bool" where
  "on_grid x = (of_int \<lfloor>x / 2 powi emin64\<rfloor> = x / 2 powi emin64)"



text \<open>An input row with the given date, platform and counters.\<close>

definition ad_row :: "date \<Rightarrow> string \<Rightarrow> int \<Rightarrow> int \<Rightarrow> rat \<Rightarrow> int \<Rightarrow> unified_record" where
  "ad_row d p i c s v =
     \<lparr>date = d, platform = p, campaign_id = ''c1'', campaign_name = ''campaign'',
      ad_group_id = ''g1'', ad_group_name = ''group'',
      impressions = i, clicks = c, spend = s, conversions = v\<rparr>"

text \<open>Two platforms, one of them without any conversion.\<close>

definition scenario :: unified_df where
  "scenario =
     [ad_row (2024, 1, 1) ''B'' 2000 100 300 0,
      ad_row (2024, 1, 1) ''A'' 1000 50 100 5]"

text \<open>A platform whose rows have neither impressions, clicks nor conversions.\<close>

definition idle_platform :: unified_df where
  "idle_platform = [ad_row (2024, 1, 1) ''tiktok'' 0 0 5 0]"

text \<open>One platform with 23.00 spent on 40 conversions: 0.575 each.\<close>

definition half_cent :: unified_df where
  "half_cent = [ad_row (2024, 1, 1) ''google'' 160 23 23 40]"


text \<open>Two platforms with two ordinary prices each.\<close>

definition prices :: unified_df where
  "prices =
     [ad_row (2024, 1, 1) ''A'' 100 10 (262 / 100) 1,
      ad_row (2024, 1, 2) ''A'' 100 10 (508 / 100) 1,
      ad_row (2024, 1, 1) ''B'' 100 10 (484 / 100) 1,
      ad_row (2024, 1, 2) ''B'' 100 10 (808 / 100) 1]"


text \<open>Three platforms with the same spend.\<close>

definition three_platforms :: unified_df where
  "three_platforms = map (\<lambda>p. ad_row (2024, 1, 1) p 10 1 1 1) [''A'', ''B'', ''C'']"

text \<open>Six platforms with the same spend.\<close>

definition six_platforms :: unified_df where
  "six_platforms =
     map (\<lambda>p. ad_row (2024, 1, 1) p 10 1 1 1) [''A'', ''B'', ''C'', ''D'', ''E'', ''F'']"

text \<open>Two platforms over two days, in no particular order, with a repeated pair.\<close>

definition two_days :: unified_df where
  "two_days =
     [ad_row (2024, 1, 2) ''B'' 10 1 4 1,
      ad_row (2024, 1, 1) ''B'' 10 1 3 0,
      ad_row (2024, 1, 2) ''A'' 10 1 2 1,
      ad_row (2024, 1, 1) ''A'' 10 1 1 2,
      ad_row (2024, 1, 2) ''B'' 10 1 6 3]"


section \<open>Properties of the rounding to float64\<close>

lemma rint_near: "\<bar>of_int (rint x) - x\<bar> \<le> 1 / 2"
proof -
  have "of_int \<lfloor>x\<rfloor> \<le> x" and "x < of_int \<lfloor>x\<rfloor> + 1"
    by linarith+
  then show ?thesis
    by (auto simp: rint_def Let_def)
qed

lemma rint_of_int [simp]: "rint (of_int j) = j"
  by (simp add: rint_def)

lemma rint_nonneg: "0 \<le> x \<Longrightarrow> 0 \<le> rint x"
  by (auto simp: rint_def Let_def)

lemma ilog2_le:
  assumes "x \<noteq> 0"
  shows "2 powi (ilog2 x) \<le> \<bar>x\<bar>"
proof -
  obtain p q where pq: "quotient_of x = (p, q)" by (cases "quotient_of x")
  then have q: "0 < q" and x: "x = of_int p / of_int q"
    using quotient_of_denom_pos quotient_of_div by blast+
  from x assms have p: "0 < \<bar>p\<bar>" by auto
  define d where "d = bitlen \<bar>p\<bar> - bitlen q"
  have absx: "\<bar>x\<bar> = of_int \<bar>p\<bar> / of_int q"
    using q by (simp add: x abs_divide)
  show ?thesis
  proof (cases "2 powi d \<le> \<bar>x\<bar>")
    case True
    then show ?thesis by (simp add: ilog2_def pq d_def Let_def)
  next
    case False
    have bp: "1 \<le> bitlen \<bar>p\<bar>" and bq: "1 \<le> bitlen q"
      using p q by (auto simp: bitlen_alt_def)
    have lo: "(2::rat) ^ nat (bitlen \<bar>p\<bar> - 1) \<le> of_int \<bar>p\<bar>"
      using bitlen_bounds [OF p]
      by (metis of_int_le_iff of_int_numeral of_int_power)
    have hi: "(of_int q :: rat) \<le> 2 ^ nat (bitlen q)"
      using bitlen_bounds [OF q]
      by (metis less_imp_le of_int_le_iff of_int_numeral of_int_power)
    have "2 powi (d - 1) = (2::rat) powi (bitlen \<bar>p\<bar> - 1) / 2 powi (bitlen q)"
      by (simp add: d_def power_int_diff)
    also have "\<dots> = 2 ^ nat (bitlen \<bar>p\<bar> - 1) / 2 ^ nat (bitlen q)"
      using bp bq by (simp add: power_int_def)
    also have "\<dots> \<le> of_int \<bar>p\<bar> / of_int q"
      using lo hi q by (intro frac_le) auto
    finally have "2 powi (d - 1) \<le> \<bar>x\<bar>"
      by (simp add: absx)
    with False show ?thesis by (simp add: ilog2_def pq d_def Let_def)
  qed
qed


lemma on_grid_iff: "on_grid x \<longleftrightarrow> (\<exists>j::int. x = of_int j * 2 powi emin64)"
proof
  assume "on_grid x"
  then have h: "of_int \<lfloor>x / 2 powi emin64\<rfloor> = x / 2 powi emin64"
    unfolding on_grid_def .
  have "x = x / 2 powi emin64 * 2 powi emin64" by simp
  then have "x = of_int \<lfloor>x / 2 powi emin64\<rfloor> * 2 powi emin64"
    by (simp only: h)
  then show "\<exists>j::int. x = of_int j * 2 powi emin64" ..
next
  assume "\<exists>j::int. x = of_int j * 2 powi emin64"
  then obtain j :: int where "x = of_int j * 2 powi emin64" ..
  then show "on_grid x" by (simp add: on_grid_def)
qed

lemma r64_Fin_shape:
  assumes "r64 x = Fin y" and "x \<noteq> 0"
  shows "y = of_int (rint (x / 2 powi (max (ilog2 x - 52) emin64)))
               * 2 powi (max (ilog2 x - 52) emin64)"
  using assms by (simp add: r64_def Let_def split: if_splits)

lemma scaled_rint_near:
  fixes x :: rat
  shows "\<bar>of_int (rint (x / 2 powi e)) * 2 powi e - x\<bar> \<le> 2 powi e / 2"
proof -
  have pos: "(0::rat) < 2 powi e" by simp
  have "of_int (rint (x / 2 powi e)) * 2 powi e - x
      = (of_int (rint (x / 2 powi e)) - x / 2 powi e) * 2 powi e"
    by (simp add: algebra_simps)
  then have "\<bar>of_int (rint (x / 2 powi e)) * 2 powi e - x\<bar>
      = \<bar>of_int (rint (x / 2 powi e)) - x / 2 powi e\<bar> * 2 powi e"
    using pos by (simp add: abs_mult)
  also have "\<dots> \<le> 1 / 2 * 2 powi e"
    using rint_near [of "x / 2 powi e"] pos by (intro mult_right_mono) auto
  finally show ?thesis by simp
qed

lemma ulp_normal:
  assumes "x \<noteq> 0"
  shows "2 powi (ilog2 x - 52) / 2 \<le> u64 * \<bar>x\<bar>"
proof -
  have "(2::rat) powi (ilog2 x - 52) = 2 powi (ilog2 x) / 2 ^ 52"
    by (simp add: power_int_diff)
  then have "(2::rat) powi (ilog2 x - 52) / 2 = 2 powi (ilog2 x) * u64"
    by (simp add: u64_def)
  also have "\<dots> \<le> \<bar>x\<bar> * u64"
    using ilog2_le [OF assms] by (intro mult_right_mono) (auto simp: u64_def)
  finally show ?thesis by (simp add: mult.commute)
qed

lemma u64_pos: "0 < u64" by (simp add: u64_def)

lemma eta64_pos: "0 < eta64" by (simp add: eta64_def)

lemma r64_error:
  assumes "r64 x = Fin y"
  shows "\<bar>y - x\<bar> \<le> u64 * \<bar>x\<bar> + eta64"
proof (cases "x = 0")
  case True
  with assms eta64_pos show ?thesis by (simp add: r64_def)
next
  case False
  define e where "e = max (ilog2 x - 52) emin64"
  have y: "y = of_int (rint (x / 2 powi e)) * 2 powi e"
    using r64_Fin_shape [OF assms False] by (simp add: e_def)
  have near: "\<bar>y - x\<bar> \<le> 2 powi e / 2"
    unfolding y by (rule scaled_rint_near)
  have u: "0 \<le> u64 * \<bar>x\<bar>" using u64_pos by simp
  show ?thesis
  proof (cases "ilog2 x - 52 \<le> emin64")
    case True
    then have "e = emin64" by (simp add: e_def)
    then have "(2::rat) powi e / 2 = eta64"
      by (simp add: eta64_def)
    with near u show ?thesis by linarith
  next
    case False
    then have "e = ilog2 x - 52" by (simp add: e_def)
    with ulp_normal [OF \<open>x \<noteq> 0\<close>] near eta64_pos show ?thesis by simp
  qed
qed

lemma r64_error_grid:
  assumes "r64 x = Fin y" and "on_grid x"
  shows "\<bar>y - x\<bar> \<le> u64 * \<bar>x\<bar>"
proof (cases "x = 0")
  case True
  with assms show ?thesis by (simp add: r64_def)
next
  case False
  define e where "e = max (ilog2 x - 52) emin64"
  have y: "y = of_int (rint (x / 2 powi e)) * 2 powi e"
    using r64_Fin_shape [OF assms(1) False] by (simp add: e_def)
  show ?thesis
  proof (cases "ilog2 x - 52 \<le> emin64")
    case True
    then have e: "e = emin64" by (simp add: e_def)
    from assms(2) obtain j :: int where j: "x = of_int j * 2 powi emin64"
      by (auto simp: on_grid_iff)
    have "x / 2 powi emin64 = of_int j"
      by (simp add: j)
    then have "y = x"
      by (simp add: y e j)
    then show ?thesis using u64_pos by simp
  next
    case False
    then have "e = ilog2 x - 52" by (simp add: e_def)
    with ulp_normal [OF \<open>x \<noteq> 0\<close>] scaled_rint_near [of x e] show ?thesis
      by (simp add: y)
  qed
qed

lemma r64_on_grid:
  assumes "r64 x = Fin y"
  shows "on_grid y"
proof (cases "x = 0")
  case True
  with assms show ?thesis by (simp add: r64_def on_grid_def)
next
  case False
  define e where "e = max (ilog2 x - 52) emin64"
  have y: "y = of_int (rint (x / 2 powi e)) * 2 powi e"
    using r64_Fin_shape [OF assms False] by (simp add: e_def)
  define n where "n = nat (e - emin64)"
  have "emin64 \<le> e" by (simp add: e_def)
  then have "e = int n + emin64" by (simp add: n_def)
  then have "(2::rat) powi e = 2 powi (int n) * 2 powi emin64"
    by (metis power_int_add zero_neq_numeral)
  then have "(2::rat) powi e = of_int (2 ^ n) * 2 powi emin64"
    by (simp only: power_int_of_nat of_int_power of_int_numeral)
  then have "y = of_int (rint (x / 2 powi e) * 2 ^ n) * 2 powi emin64"
    by (simp add: y)
  then show ?thesis unfolding on_grid_iff ..
qed

lemma r64_nonneg:
  assumes "r64 x = Fin y" and "0 \<le> x"
  shows "0 \<le> y"
proof (cases "x = 0")
  case True
  with assms show ?thesis by (simp add: r64_def)
next
  case False
  define e where "e = max (ilog2 x - 52) emin64"
  have y: "y = of_int (rint (x / 2 powi e)) * 2 powi e"
    using r64_Fin_shape [OF assms(1) False] by (simp add: e_def)
  have "0 \<le> x / 2 powi e" using assms(2) by simp
  then have "0 \<le> rint (x / 2 powi e)" by (rule rint_nonneg)
  then show ?thesis by (simp add: y)
qed

lemma r64_not_NaN [simp]: "r64 x \<noteq> NaN"
  by (simp add: r64_def Let_def)

lemma power_int_2_less_imp:
  assumes "(2::rat) powi a < 2 powi b"
  shows "a < b"
proof (rule ccontr)
  assume "\<not> a < b"
  then have "b \<le> a" by simp
  then have "(2::rat) powi b \<le> 2 powi a"
    by (intro power_int_increasing) auto
  with assms show False by simp
qed

lemma r64_of_int_exact:
  assumes "\<bar>j\<bar> < 2 ^ 53"
  shows "r64 (of_int j) = Fin (of_int j)"
proof (cases "j = 0")
  case True
  then show ?thesis by (simp add: r64_def)
next
  case False
  define x :: rat where "x = of_int j"
  have x0: "x \<noteq> 0" using False by (simp add: x_def)
  define e where "e = max (ilog2 x - 52) emin64"
  have "\<bar>x\<bar> < 2 ^ 53"
    using assms unfolding x_def
    by (metis of_int_abs of_int_less_iff of_int_numeral of_int_power)
  then have "(2::rat) powi (ilog2 x) < 2 powi 53"
    using ilog2_le [OF x0] by simp
  then have "ilog2 x < 53" by (rule power_int_2_less_imp)
  then have e0: "e \<le> 0" by (simp add: e_def emin64_def)
  define n where "n = nat (- e)"
  have en: "e = - int n" using e0 by (simp add: n_def)
  have p: "(2::rat) powi e = 1 / 2 ^ n"
    by (simp add: en power_int_minus_divide)
  have scaled: "x / 2 powi e = of_int (j * 2 ^ n)"
    by (simp add: p x_def)
  have m: "rint (x / 2 powi e) = j * 2 ^ n"
    by (simp only: scaled rint_of_int)
  have jpos: "0 < \<bar>j\<bar>" using False by simp
  have "bitlen \<bar>j * 2 ^ n\<bar> = bitlen (\<bar>j\<bar> * 2 ^ n)"
    by (simp add: abs_mult)
  also have "\<dots> = bitlen \<bar>j\<bar> + int n"
    using jpos by (rule bitlen_pow2)
  finally have bl: "bitlen \<bar>j * 2 ^ n\<bar> + e = bitlen \<bar>j\<bar>"
    by (simp add: en)
  have "bitlen \<bar>j\<bar> \<le> 53"
    using assms by (simp add: bitlen_le_iff_power)
  then have ok: "\<not> 1024 < bitlen \<bar>rint (x / 2 powi e)\<bar> + e"
    by (simp only: m bl)
  have val: "of_int (rint (x / 2 powi e)) * 2 powi e = x"
    by (simp only: m) (simp add: p x_def)
  show ?thesis
    using x0 ok val unfolding x_def [symmetric] r64_def e_def [symmetric] Let_def
    by simp
qed

lemma i2f_exact: "\<bar>c\<bar> < 2 ^ 53 \<Longrightarrow> i2f c = Fin (of_int c)"
  by (simp add: i2f_def r64_of_int_exact)

lemma round64_Fin:
  assumes "round64 n (Fin a) = Fin v"
  shows "\<exists>z. r64 (a * 10 ^ n) = Fin z \<and> r64 (of_int (rint z) / 10 ^ n) = Fin v"
proof (cases "r64 (a * 10 ^ n)")
  case (Fin z)
  with assms have "r64 (of_int (rint z) / 10 ^ n) = Fin v"
    by (simp add: round64_def)
  with Fin show ?thesis by blast
next
  case PInf
  with assms show ?thesis by (simp add: round64_def)
next
  case NInf
  with assms show ?thesis by (simp add: round64_def)
next
  case NaN
  with assms show ?thesis by (simp add: round64_def)
qed

lemma round64_close:
  assumes "round64 n (Fin a) = Fin v"
  shows "\<exists>k::int. r64 (of_int k / 10 ^ n) = Fin v
           \<and> \<bar>of_int k - a * 10 ^ n\<bar> \<le> 1 / 2 + u64 * \<bar>a * 10 ^ n\<bar> + eta64"
proof -
  from round64_Fin [OF assms] obtain z where z: "r64 (a * 10 ^ n) = Fin z"
    and v: "r64 (of_int (rint z) / 10 ^ n) = Fin v" by blast
  have "\<bar>of_int (rint z) - a * 10 ^ n\<bar> \<le> \<bar>of_int (rint z) - z\<bar> + \<bar>z - a * 10 ^ n\<bar>"
    by simp
  with rint_near [of z] r64_error [OF z]
  have "\<bar>of_int (rint z) - a * 10 ^ n\<bar> \<le> 1 / 2 + u64 * \<bar>a * 10 ^ n\<bar> + eta64"
    by linarith
  with v show ?thesis by blast
qed

lemma round64_special:
  "round64 n NaN = NaN" "round64 n PInf = PInf" "round64 n NInf = NInf"
  by (simp_all add: round64_def)

section \<open>Grouping neither loses nor repeats a row\<close>

lemma set_group_keys: "set (group_keys key df) = key ` set df"
  by (simp add: group_keys_def)

lemma distinct_group_keys: "distinct (group_keys key df)"
  by (simp add: group_keys_def)



lemma sum_list_pick_absent:
  fixes v :: "'a::comm_monoid_add"
  shows "k \<notin> set ks \<Longrightarrow> (\<Sum>j\<leftarrow>ks. if k = j then v else 0) = 0"
  by (induction ks) auto

lemma sum_list_pick:
  fixes v :: "'a::comm_monoid_add"
  assumes "distinct ks" and "k \<in> set ks"
  shows "(\<Sum>j\<leftarrow>ks. if k = j then v else 0) = v"
  using assms by (induction ks) (auto simp: sum_list_pick_absent)

lemma sum_list_regroup:
  fixes f :: "'r \<Rightarrow> 'a::comm_monoid_add"
  assumes "distinct ks" and "key ` set df \<subseteq> set ks"
  shows "(\<Sum>k\<leftarrow>ks. sum_list (map f (get_group key k df))) = sum_list (map f df)"
  using assms(2)
proof (induction df)
  case Nil
  then show ?case by (simp add: get_group_def)
next
  case (Cons r df)
  have "(\<Sum>k\<leftarrow>ks. sum_list (map f (get_group key k (r # df))))
      = (\<Sum>k\<leftarrow>ks. (if key r = k then f r else 0) + sum_list (map f (get_group key k df)))"
    by (rule arg_cong [where f = sum_list]) (simp add: get_group_def)
  also have "\<dots> = (\<Sum>k\<leftarrow>ks. if key r = k then f r else 0)
                 + (\<Sum>k\<leftarrow>ks. sum_list (map f (get_group key k df)))"
    by (simp add: sum_list_addf)
  also have "\<dots> = f r + sum_list (map f df)"
    using Cons assms(1) by (simp add: sum_list_pick)
  finally show ?case by simp
qed

lemma sum_list_group_keys:
  fixes f :: "'r \<Rightarrow> 'a::comm_monoid_add"
  shows "(\<Sum>k\<leftarrow>group_keys key df. sum_list (map f (get_group key k df))) = sum_list (map f df)"
  by (rule sum_list_regroup) (simp_all add: distinct_group_keys set_group_keys)


section \<open>The rows of the per-platform table\<close>

lemma platform_groups_row:
  assumes "g \<in> set (platform_groups df)"
  shows "g_platform g \<in> platform ` set df"
    and "g_spend g = sum64 (map spend64 (get_group platform (g_platform g) df))"
    and "g_impressions g = sum_list (map impressions (get_group platform (g_platform g) df))"
    and "g_clicks g = sum_list (map clicks (get_group platform (g_platform g) df))"
    and "g_conversions g = sum_list (map conversions (get_group platform (g_platform g) df))"
  using assms by (auto simp: platform_groups_def Let_def set_group_keys)

lemma by_platform_row:
  assumes "r \<in> set (by_platform df)"
  shows "g_platform r \<in> platform ` set df"
    and "g_spend r = sum64 (map spend64 (get_group platform (g_platform r) df))"
    and "g_impressions r = sum_list (map impressions (get_group platform (g_platform r) df))"
    and "g_clicks r = sum_list (map clicks (get_group platform (g_platform r) df))"
    and "g_conversions r = sum_list (map conversions (get_group platform (g_platform r) df))"
    and "ctr_pct r = derive_ctr_pct r"
    and "cost_per_conv r = derive_cost_per_conv r"
    and "share_of_spend r = derive_share_of_spend (spend_sum df) r"
proof -
  from assms obtain g where g: "g \<in> set (platform_groups df)"
    and r: "r = \<lparr>g_platform = g_platform g, g_spend = g_spend g,
                 g_impressions = g_impressions g, g_clicks = g_clicks g,
                 g_conversions = g_conversions g, ctr_pct = derive_ctr_pct g,
                 cost_per_conv = derive_cost_per_conv g,
                 share_of_spend = derive_share_of_spend (spend_sum df) g\<rparr>"
    by (auto simp: by_platform_def Let_def spend_sum_def)
  show "g_platform r \<in> platform ` set df"
    using platform_groups_row(1) [OF g] by (simp add: r)
  show "g_spend r = sum64 (map spend64 (get_group platform (g_platform r) df))"
    using platform_groups_row(2) [OF g] by (simp add: r)
  show "g_impressions r = sum_list (map impressions (get_group platform (g_platform r) df))"
    using platform_groups_row(3) [OF g] by (simp add: r)
  show "g_clicks r = sum_list (map clicks (get_group platform (g_platform r) df))"
    using platform_groups_row(4) [OF g] by (simp add: r)
  show "g_conversions r = sum_list (map conversions (get_group platform (g_platform r) df))"
    using platform_groups_row(5) [OF g] by (simp add: r)
  show "ctr_pct r = derive_ctr_pct r"
    by (simp add: r derive_ctr_pct_def)
  show "cost_per_conv r = derive_cost_per_conv r"
    by (simp add: r derive_cost_per_conv_def)
  show "share_of_spend r = derive_share_of_spend (spend_sum df) r"
    by (simp add: r derive_share_of_spend_def)
qed

lemma by_platform_scenario:
  "by_platform scenario =
     [\<lparr>g_platform = ''A'', g_spend = Fin 100, g_impressions = 1000, g_clicks = 50,
       g_conversions = 5, ctr_pct = Fin 5, cost_per_conv = Fin 20, share_of_spend = Fin 25\<rparr>,
      \<lparr>g_platform = ''B'', g_spend = Fin 300, g_impressions = 2000, g_clicks = 100,
       g_conversions = 0, ctr_pct = Fin 5, cost_per_conv = NaN, share_of_spend = Fin 75\<rparr>]"
  by code_simp

section \<open>Click-through rate of a platform without impressions\<close>

text \<open>
  Claim C1 says that a platform group whose summed impressions are 0 gets \<open>ctr_pct = 0\<close>.
  The column is computed as \<open>clicks / impressions * 100\<close> with no guard on the divisor,
  unlike the overall click-through rate of the headline metrics. For the record set
  \<open>idle_platform\<close> the group has 0 impressions and 0 clicks, and the table holds \<open>NaN\<close>,
  which the shown table formats as a percentage.
\<close>

theorem ctr_pct_zero_impressions_is_nan:
  "map g_impressions (by_platform idle_platform) = [0]
   \<and> map ctr_pct (by_platform idle_platform) = [NaN]
   \<and> map v_ctr_pct (display_df (by_platform idle_platform)) = [Pct2 NaN]
   \<and> overall_ctr idle_platform = Fin 0"
  by code_simp


section \<open>Cost per conversion of a platform\<close>

lemma r64_notna [simp]: "notna (r64 x)"
  by (cases "r64 x") simp_all

lemma round64_notna: "notna v \<Longrightarrow> notna (round64 n v)"
proof (cases v)
  case (Fin a)
  then show ?thesis
    by (cases "r64 (a * 10 ^ n)") (simp_all add: round64_def)
qed (simp_all add: round64_def)

lemma quotient_round_close:
  fixes s q :: rat
  assumes d: "r64 q = Fin d"
    and k: "\<bar>of_int k - d * 100\<bar> \<le> 1 / 2 + u64 * \<bar>d * 100\<bar> + eta64"
  shows "\<bar>of_int k - 100 * q\<bar> \<le> 1 / 2 + 300 * u64 * \<bar>q\<bar> + 201 * eta64"
proof -
  define W where "W = u64 * \<bar>q\<bar>"
  define D where "D = u64 * \<bar>d\<bar>"
  define A where "A = of_int k - d * 100"
  define B where "B = d - q"
  have u1: "u64 \<le> 1" and u0: "0 \<le> u64" by (simp_all add: u64_def)
  have e0: "0 \<le> eta64" using eta64_pos by simp
  have dq: "\<bar>B\<bar> \<le> W + eta64"
    unfolding B_def W_def by (rule r64_error [OF d])
  have "u64 * \<bar>q\<bar> \<le> 1 * \<bar>q\<bar>" using u1 by (intro mult_right_mono) auto
  then have wq: "W \<le> \<bar>q\<bar>" by (simp add: W_def)
  have "\<bar>d\<bar> \<le> \<bar>q\<bar> + \<bar>B\<bar>" unfolding B_def by linarith
  with dq wq have dabs: "\<bar>d\<bar> \<le> 2 * \<bar>q\<bar> + eta64" by linarith
  have "u64 * \<bar>d\<bar> \<le> u64 * (2 * \<bar>q\<bar> + eta64)"
    using dabs u0 by (rule mult_left_mono)
  also have "\<dots> = 2 * W + u64 * eta64" by (simp add: W_def algebra_simps)
  also have "\<dots> \<le> 2 * W + 1 * eta64"
    using u1 e0 by (intro add_left_mono mult_right_mono) auto
  finally have ud: "D \<le> 2 * W + eta64" by (simp add: D_def)
  have "u64 * \<bar>d * 100\<bar> = 100 * D" by (simp add: abs_mult D_def)
  with k have k': "\<bar>A\<bar> \<le> 1 / 2 + 100 * D + eta64"
    by (simp add: A_def)
  have "of_int k - 100 * q = A + 100 * B"
    by (simp add: A_def B_def)
  moreover have "\<bar>A + 100 * B\<bar> \<le> \<bar>A\<bar> + \<bar>100 * B\<bar>"
    by (rule abs_triangle_ineq)
  moreover have "\<bar>100 * B\<bar> = 100 * \<bar>B\<bar>"
    by (simp add: abs_mult)
  ultimately have "\<bar>of_int k - 100 * q\<bar> \<le> \<bar>A\<bar> + 100 * \<bar>B\<bar>"
    by simp
  with k' ud dq have "\<bar>of_int k - 100 * q\<bar> \<le> 1 / 2 + 300 * W + 201 * eta64"
    by linarith
  then show ?thesis by (simp add: W_def)
qed

lemma by_platform_half_cent:
  "by_platform half_cent =
     [\<lparr>g_platform = ''google'', g_spend = Fin 23, g_impressions = 160, g_clicks = 23,
       g_conversions = 40,
       ctr_pct = Fin (8089590830664253 / 562949953421312),
       cost_per_conv = Fin (5134103575202365 / 9007199254740992),
       share_of_spend = Fin 100\<rparr>]"
  by code_simp

lemma nearest_floats:
  "r64 (1437 / 100) = Fin (8089590830664253 / 562949953421312)"
  "r64 (57 / 100) = Fin (5134103575202365 / 9007199254740992)"
  "r64 (23 / 40) = Fin (2589569785738035 / 4503599627370496)"
  by code_simp+

text \<open>
  Claim C2. For every platform group of the per-platform table, whose conversions and
  spend are the sums over the rows of the platform: when the summed conversions are 0,
  \<open>cost_per_conv\<close> is the no-value marker \<open>NaN\<close>, which differs from a computed 0 and is
  shown as the placeholder dash and not as a dollar amount. When they are above 0,
  \<open>cost_per_conv\<close> is the quotient spend / conversions under the rounding policy of two
  decimals: it is the float64 quotient rounded by \<open>round\<close>, it is shown as a dollar amount,
  and when it is finite it is the float64 of a whole number of cents that lies within half
  a cent, up to the rounding error of float64, of the exact quotient.
\<close>

theorem cost_per_conv_absent_or_quotient:
  assumes "r \<in> set (by_platform df)"
  shows "g_conversions r = sum_list (map conversions (get_group platform (g_platform r) df))
    \<and> g_spend r = sum64 (map spend64 (get_group platform (g_platform r) df))
    \<and> (g_conversions r = 0 \<longrightarrow>
          cost_per_conv r = NaN \<and> cost_per_conv r \<noteq> Fin 0
          \<and> v_cost_per_conv (format_row r) = Dash)
    \<and> (0 < g_conversions r \<longrightarrow>
          cost_per_conv r = round64 2 (div64 (g_spend r) (i2f (g_conversions r)))
          \<and> (\<forall>s. g_spend r = Fin s \<and> g_conversions r < 2 ^ 53 \<longrightarrow>
                notna (cost_per_conv r)
                \<and> v_cost_per_conv (format_row r) = Money2 (cost_per_conv r)
                \<and> (\<forall>c. cost_per_conv r = Fin c \<longrightarrow>
                      (\<exists>k::int. r64 (of_int k / 100) = Fin c
                         \<and> \<bar>of_int k - 100 * (s / of_int (g_conversions r))\<bar>
                             \<le> 1 / 2 + 300 * u64 * \<bar>s / of_int (g_conversions r)\<bar>
                                 + 201 * eta64))))"
proof -
  note row = by_platform_row(2,5,7) [OF assms]
  have zero: "cost_per_conv r = NaN \<and> cost_per_conv r \<noteq> Fin 0
          \<and> v_cost_per_conv (format_row r) = Dash" if "g_conversions r = 0"
  proof -
    have "cost_per_conv r = NaN"
      using that row(3) by (cases "g_spend r")
        (simp_all add: derive_cost_per_conv_def replace_0_nan_def round64_def)
    then show ?thesis by (simp add: format_row_def)
  qed
  have formula: "cost_per_conv r = round64 2 (div64 (g_spend r) (i2f (g_conversions r)))"
    if "0 < g_conversions r"
    using that row(3) by (simp add: derive_cost_per_conv_def replace_0_nan_def)
  have fin: "notna (cost_per_conv r)
                \<and> v_cost_per_conv (format_row r) = Money2 (cost_per_conv r)
                \<and> (\<forall>c. cost_per_conv r = Fin c \<longrightarrow>
                      (\<exists>k::int. r64 (of_int k / 100) = Fin c
                         \<and> \<bar>of_int k - 100 * (s / of_int (g_conversions r))\<bar>
                             \<le> 1 / 2 + 300 * u64 * \<bar>s / of_int (g_conversions r)\<bar>
                                 + 201 * eta64))"
    if pos: "0 < g_conversions r" and s: "g_spend r = Fin s" and small: "g_conversions r < 2 ^ 53"
    for s
  proof -
    have conv: "i2f (g_conversions r) = Fin (of_int (g_conversions r))"
      using pos small by (intro i2f_exact) simp
    have quot: "div64 (g_spend r) (i2f (g_conversions r)) = r64 (s / of_int (g_conversions r))"
      using pos by (simp add: s conv)
    have val: "cost_per_conv r = round64 2 (r64 (s / of_int (g_conversions r)))"
      using formula [OF pos] by (simp only: quot)
    have nn: "notna (cost_per_conv r)"
      unfolding val by (rule round64_notna) simp
    then have shown: "v_cost_per_conv (format_row r) = Money2 (cost_per_conv r)"
      by (simp add: format_row_def)
    have close: "\<exists>k::int. r64 (of_int k / 100) = Fin c
                         \<and> \<bar>of_int k - 100 * (s / of_int (g_conversions r))\<bar>
                             \<le> 1 / 2 + 300 * u64 * \<bar>s / of_int (g_conversions r)\<bar>
                                 + 201 * eta64"
      if c: "cost_per_conv r = Fin c" for c
    proof (cases "r64 (s / of_int (g_conversions r))")
      case (Fin d)
      with c val have "round64 2 (Fin d) = Fin c" by simp
      from round64_close [OF this] obtain k :: int
        where k: "r64 (of_int k / 10 ^ 2) = Fin c"
          and near: "\<bar>of_int k - d * 10 ^ 2\<bar> \<le> 1 / 2 + u64 * \<bar>d * 10 ^ 2\<bar> + eta64"
        by blast
      from near have "\<bar>of_int k - d * 100\<bar> \<le> 1 / 2 + u64 * \<bar>d * 100\<bar> + eta64"
        by simp
      from quotient_round_close [OF Fin this] k show ?thesis
        by auto
    next
      case PInf
      with c val show ?thesis by (simp add: round64_special)
    next
      case NInf
      with c val show ?thesis by (simp add: round64_special)
    next
      case NaN
      with c val show ?thesis by (simp add: round64_special)
    qed
    from nn shown close show ?thesis by blast
  qed
  from row(1,2) zero formula fin show ?thesis by blast
qed

theorem cost_per_conv_absent_or_quotient_witness:
  "hd (by_platform half_cent) \<in> set (by_platform half_cent)
   \<and> 0 < g_conversions (hd (by_platform half_cent))
   \<and> g_conversions (hd (by_platform half_cent)) < 2 ^ 53
   \<and> g_spend (hd (by_platform half_cent)) = Fin 23
   \<and> cost_per_conv (hd (by_platform half_cent)) = r64 (57 / 100)
   \<and> r64 (57 / 100) = Fin (5134103575202365 / 9007199254740992)
   \<and> v_cost_per_conv (format_row (hd (by_platform half_cent))) = Money2 (r64 (57 / 100))
   \<and> last (by_platform scenario) \<in> set (by_platform scenario)
   \<and> g_conversions (last (by_platform scenario)) = 0
   \<and> cost_per_conv (last (by_platform scenario)) = NaN
   \<and> v_cost_per_conv (format_row (last (by_platform scenario))) = Dash"
proof -
  have a: "hd (by_platform half_cent) \<in> set (by_platform half_cent)"
    by (simp add: by_platform_half_cent)
  have b: "last (by_platform scenario) \<in> set (by_platform scenario)"
    by (simp add: by_platform_scenario)
  have pos: "0 < g_conversions (hd (by_platform half_cent))"
    "g_conversions (hd (by_platform half_cent)) < 2 ^ 53"
    "g_spend (hd (by_platform half_cent)) = Fin 23"
    by (simp_all add: by_platform_half_cent)
  have zero: "g_conversions (last (by_platform scenario)) = 0"
    by (simp add: by_platform_scenario)
  have v: "cost_per_conv (hd (by_platform half_cent)) = r64 (57 / 100)"
    by (simp add: by_platform_half_cent nearest_floats)
  show ?thesis
    using cost_per_conv_absent_or_quotient [OF a] cost_per_conv_absent_or_quotient [OF b]
      a b pos zero v nearest_floats(2)
    by simp
qed

section \<open>Rounding of the derived columns\<close>




section \<open>Zero guards of the headline metrics\<close>

text \<open>
  Claim C3 as stated: with 0 conversions in the whole record set, the overall cost per
  conversion is the no-value marker. For the record set \<open>idle_platform\<close> the totals of
  conversions and clicks are 0, and both overall ratios are the number 0.
\<close>

theorem overall_cpa_zero_conversions_is_zero:
  "tot_conversions idle_platform = 0
   \<and> overall_cpa idle_platform = Fin 0
   \<and> overall_cpa idle_platform \<noteq> NaN
   \<and> notna (overall_cpa idle_platform)
   \<and> tot_clicks idle_platform = 0
   \<and> overall_cpc idle_platform = Fin 0"
  by code_simp

text \<open>
  Claim C3, amended. The headline metrics guard each ratio against a zero divisor with
  the number 0: when the total conversions are 0 the overall cost per conversion is 0 and
  not the no-value marker, when the total clicks are 0 the overall cost per click is 0,
  and when the total impressions are 0 the overall click-through rate is 0.
\<close>

theorem overall_zero_guard_is_zero:
  "(tot_conversions df = 0 \<longrightarrow> overall_cpa df = Fin 0 \<and> notna (overall_cpa df))
   \<and> (tot_clicks df = 0 \<longrightarrow> overall_cpc df = Fin 0 \<and> notna (overall_cpc df))
   \<and> (tot_impressions df = 0 \<longrightarrow> overall_ctr df = Fin 0)"
  by (simp add: overall_cpa_def overall_cpc_def overall_ctr_def)

theorem overall_zero_guard_is_zero_witness:
  "tot_conversions idle_platform = 0 \<and> tot_clicks idle_platform = 0
   \<and> tot_impressions idle_platform = 0
   \<and> overall_cpa idle_platform = Fin 0 \<and> overall_cpc idle_platform = Fin 0
   \<and> overall_ctr idle_platform = Fin 0"
proof -
  have z: "tot_conversions idle_platform = 0" "tot_clicks idle_platform = 0"
    "tot_impressions idle_platform = 0"
    by code_simp+
  show ?thesis
    using overall_zero_guard_is_zero [of idle_platform] z by simp
qed

section \<open>The overall click-through rate\<close>



section \<open>The time series derived from the raw rows\<close>


lemma daily_alt_row:
  assumes "r \<in> set (daily_alt df)"
  shows "d_spend r =
           sum_list (map spend (filter (\<lambda>u. date u = d_date r \<and> platform u = d_platform r) df))"
    and "d_conversions r =
           sum_list (map conversions
             (filter (\<lambda>u. date u = d_date r \<and> platform u = d_platform r) df))"
  using assms
  by (auto simp: daily_alt_def Let_def get_group_def date_platform_def prod_eq_iff)



lemma daily_alt_nonempty: "df \<noteq> [] \<Longrightarrow> daily_alt df \<noteq> []"
proof -
  assume "df \<noteq> []"
  then have "set (group_keys date_platform df) \<noteq> {}"
    by (simp add: set_group_keys)
  then show ?thesis
    by (auto simp: daily_alt_def)
qed




section \<open>An empty daily summary\<close>

text \<open>
  Claim C10. The time series section takes the fallback exactly when the daily summary is
  absent or has no rows, and plots the daily summary otherwise. The derived frame has at
  least one row whenever the record set has one, so an empty daily summary does not give an
  empty chart.
\<close>

theorem empty_daily_uses_fallback:
  "over_time daily df =
     (if daily = None \<or> daily = Some [] then FallbackChart (daily_alt df)
      else DailyCharts (spend_traces (the daily)) (conversions_traces (the daily)))
   \<and> (df \<noteq> [] \<longrightarrow> daily_alt df \<noteq> [])"
  by (auto simp: over_time_def daily_alt_nonempty split: option.splits)

theorem empty_daily_uses_fallback_witness:
  "two_days \<noteq> [] \<and> over_time (Some []) two_days = FallbackChart (daily_alt two_days)
   \<and> over_time None two_days = FallbackChart (daily_alt two_days)
   \<and> daily_alt two_days \<noteq> []"
proof -
  have n: "two_days \<noteq> []" by (simp add: two_days_def)
  show ?thesis
    using empty_daily_uses_fallback [of "Some []" two_days]
      empty_daily_uses_fallback [of None two_days] n
    by simp
qed

section \<open>A daily summary that cannot be loaded\<close>









end
